theory Spec2Isabelle
  imports Main
begin

section \<open>The Daraz scraper: data model\<close>

text \<open>
  The program is one Python class, \<open>DarazScraper\<close> (src/daraz.py), that drives a Selenium
  browser session and appends rows to a CSV file; src/constants.py holds its five XPath
  selectors. Everything the class does is an effect on the outside world, so the model
  threads an explicit state through every method: the state of the browser engine, the
  list of calls made on the engine, the log, and the file system.

  Exceptions are values. Every exception of the model is a subclass of Python's
  \<open>Exception\<close>, which is what the handlers \<open>except Exception\<close> of the source
  catch. \<open>NoSuchElementException\<close> and \<open>TimeoutException\<close> are the two classes the source
  names; \<open>UnicodeEncodeError\<close> and \<open>OSError\<close> are what the file layer raises;
  \<open>OtherException\<close> stands for any other subclass of \<open>Exception\<close> (a stale element, an
  invalid session, an intercepted click). What is not an \<open>Exception\<close>
  (\<open>KeyboardInterrupt\<close>, \<open>SystemExit\<close>) comes from outside the program and is not
  modelled; the loguru calls do not raise.

  \<open>__init__\<close> launches the browser and sets the two attributes before any method runs;
  the model starts from there, with the engine's state and the attributes given.
\<close>

datatype exn =
    NoSuchElementException
  | TimeoutException
  | UnicodeEncodeError
  | OSError
  | OtherException

text \<open>The value a Python call returns. No method of the class has a \<open>return\<close> statement.\<close>

datatype pyval = PyNone | PyBool bool

text \<open>src/constants.py: the enumeration \<open>Xpaths\<close> and the \<open>.value\<close> of each member.\<close>

datatype Xpaths = PRODUCT_CONTAINER | PRODUCT_PRICE | PRODUCT_NAME | PRODUCT_SOLD | NEXT_PAGE

fun xvalue :: \<open>Xpaths \<Rightarrow> string\<close> where
  \<open>xvalue PRODUCT_CONTAINER = ''//div[@class="Ms6aG"]''\<close>
| \<open>xvalue PRODUCT_PRICE = ''.//div[@class="aBrP0"]''\<close>
| \<open>xvalue PRODUCT_NAME = ''.//div[@class="RfADt"]''\<close>
| \<open>xvalue PRODUCT_SOLD = ''.//div[@class="_6uN7R"]/span[@class="_1cEkb"]''\<close>
| \<open>xvalue NEXT_PAGE = ''//button[@class="ant-pagination-item-link"]/span[@aria-label="right"]''\<close>

text \<open>
  A Python \<open>str\<close> read from the page is a sequence of Unicode code points. URLs, paths and
  selectors are program constants and stay HOL strings.
\<close>

type_synonym pystr = \<open>nat list\<close>

text \<open>
  The calls the program makes on its collaborators, in the order it makes them, with the
  arguments the source passes: \<open>driver.get(url)\<close>, \<open>time.sleep(n)\<close>,
  \<open>WebDriverWait(driver, t).until(presence_of_all_elements_located(xpath))\<close>,
  \<open>WebDriverWait(driver, t).until(element_to_be_clickable(xpath))\<close>, \<open>element.click()\<close>,
  \<open>driver.quit()\<close> and \<open>open(path, mode='a', newline='', encoding='utf-8')\<close>.
\<close>

datatype event =
    EvGet string
  | EvSleep nat
  | EvWaitPresence nat string
  | EvWaitClickable nat string
  | EvClick
  | EvQuit
  | EvOpenAppend string

text \<open>The loguru calls of the source: a level and the message, its format arguments kept.\<close>

datatype level = INFO | WARNING | ERROR

datatype message =
    OpeningURL string
  | FailedToOpenURL exn
  | FoundProducts nat
  | DetailsNotFound exn
  | TimedOutWaiting
  | ErrorScrapingProducts exn
  | NavigatedNext
  | NextNotClickable
  | ErrorNavigating exn
  | RecordsWritten nat
  | ErrorWritingCSV exn
  | ScrapingPage int int
  | ErrorScrapingPage int exn
  | DriverClosed
  | ErrorClosingDriver exn

text \<open>
  A path of the file system holds nothing, a regular file (its bytes), or something that
  \<open>open\<close> refuses with an \<open>OSError\<close> (a directory, a file without write permission, a
  path under a missing directory).
\<close>

datatype fentry = Missing | Regular \<open>nat list\<close> | Denied

text \<open>
  The browser automation engine is a collaborator, not part of the repository: it is a
  parameter of the model. \<open>'w\<close> is the engine's own state, \<open>'el\<close> its element handles.
  Each operation answers with a result or an exception and the engine's next state;
  \<open>find_text\<close> is \<open>element.find_element(By.XPATH, xpath).text\<close>, which reads the page and
  leaves it as it is.
\<close>

record ('w, 'el) engine =
  drv_get :: \<open>'w \<Rightarrow> string \<Rightarrow> exn option \<times> 'w\<close>
  wait_presence :: \<open>'w \<Rightarrow> nat \<Rightarrow> string \<Rightarrow> (exn + 'el list) \<times> 'w\<close>
  find_text :: \<open>'w \<Rightarrow> 'el \<Rightarrow> string \<Rightarrow> exn + pystr\<close>
  wait_clickable :: \<open>'w \<Rightarrow> nat \<Rightarrow> string \<Rightarrow> (exn + 'el) \<times> 'w\<close>
  click :: \<open>'w \<Rightarrow> 'el \<Rightarrow> exn option \<times> 'w\<close>
  drv_quit :: \<open>'w \<Rightarrow> exn option \<times> 'w\<close>

record 'w state =
  world :: 'w
  calls :: \<open>event list\<close>
  logged :: \<open>(level \<times> message) list\<close>
  files :: \<open>string \<Rightarrow> fentry\<close>

text \<open>The attributes \<open>self.url\<close> and \<open>self.csv_file\<close> set by \<open>__init__\<close>.\<close>

record scraper =
  url :: string
  csv_file :: string

type_synonym 'w result = \<open>(exn + pyval) \<times> 'w state\<close>

definition logger :: \<open>level \<Rightarrow> message \<Rightarrow> 'w state \<Rightarrow> 'w state\<close> where
  \<open>logger lv m st = st\<lparr>logged := logged st @ [(lv, m)]\<rparr>\<close>

definition called :: \<open>event \<Rightarrow> 'w \<Rightarrow> 'w state \<Rightarrow> 'w state\<close> where
  \<open>called ev w st = st\<lparr>world := w, calls := calls st @ [ev]\<rparr>\<close>

definition sleep :: \<open>nat \<Rightarrow> 'w state \<Rightarrow> 'w state\<close> where
  \<open>sleep n st = st\<lparr>calls := calls st @ [EvSleep n]\<rparr>\<close>

section \<open>The methods of DarazScraper\<close>

subsection \<open>quit_driver\<close>

definition quit_driver :: \<open>('w, 'el) engine \<Rightarrow> 'w state \<Rightarrow> 'w result\<close> where
  \<open>quit_driver eng st =
     (case drv_quit eng (world st) of
        (None, w) \<Rightarrow> (Inr PyNone, logger INFO DriverClosed (called EvQuit w st))
      | (Some e, w) \<Rightarrow> (Inr PyNone, logger ERROR (ErrorClosingDriver e) (called EvQuit w st)))\<close>

subsection \<open>start_driver\<close>

definition start_driver :: \<open>scraper \<Rightarrow> ('w, 'el) engine \<Rightarrow> 'w state \<Rightarrow> 'w result\<close> where
  \<open>start_driver self eng st =
     (let st1 = logger INFO (OpeningURL (url self)) st in
      case drv_get eng (world st1) (url self) of
        (None, w) \<Rightarrow> (Inr PyNone, sleep 2 (called (EvGet (url self)) w st1))
      | (Some e, w) \<Rightarrow>
          (case quit_driver eng (logger ERROR (FailedToOpenURL e) (called (EvGet (url self)) w st1)) of
             (Inl e', st2) \<Rightarrow> (Inl e', st2)
           | (Inr _, st2) \<Rightarrow> (Inr PyNone, st2)))\<close>

subsection \<open>write_to_csv\<close>

text \<open>
  \<open>csv.writer(file)\<close> with the default dialect: fields joined by a comma, a field that
  holds a comma, a double quote, a carriage return or a line feed is wrapped in double
  quotes with every double quote doubled, a row that is one empty field is written as two
  double quotes, and every row ends with carriage return and line feed. The file is opened
  with \<open>newline=''\<close>, so the line ends are written as they are.
\<close>

definition csv_field :: \<open>pystr \<Rightarrow> pystr\<close> where
  \<open>csv_field f =
     (if 44 \<in> set f \<or> 34 \<in> set f \<or> 13 \<in> set f \<or> 10 \<in> set f
      then [34] @ concat (map (\<lambda>c. if c = 34 then [34, 34] else [c]) f) @ [34]
      else f)\<close>

fun join_fields :: \<open>pystr list \<Rightarrow> pystr\<close> where
  \<open>join_fields [] = []\<close>
| \<open>join_fields [f] = f\<close>
| \<open>join_fields (f # g # fs) = f @ [44] @ join_fields (g # fs)\<close>

definition csv_row :: \<open>pystr list \<Rightarrow> pystr\<close> where
  \<open>csv_row r = (if r = [[]] then [34, 34] else join_fields (map csv_field r)) @ [13, 10]\<close>

text \<open>
  \<open>encoding='utf-8'\<close>: the UTF-8 encoder of the text layer. A surrogate code point
  (U+D800 to U+DFFF) raises \<open>UnicodeEncodeError\<close>; a Python \<open>str\<close> holds no code point
  above U+10FFFF.
\<close>

definition utf8_char :: \<open>nat \<Rightarrow> exn + nat list\<close> where
  \<open>utf8_char c =
     (if c < 128 then Inr [c]
      else if c < 2048 then Inr [192 + c div 64, 128 + c mod 64]
      else if 55296 \<le> c \<and> c \<le> 57343 then Inl UnicodeEncodeError
      else if c < 65536 then Inr [224 + c div 4096, 128 + (c div 64) mod 64, 128 + c mod 64]
      else if c < 1114112
        then Inr [240 + c div 262144, 128 + (c div 4096) mod 64, 128 + (c div 64) mod 64,
                  128 + c mod 64]
      else Inl UnicodeEncodeError)\<close>

fun utf8_encode :: \<open>pystr \<Rightarrow> exn + nat list\<close> where
  \<open>utf8_encode [] = Inr []\<close>
| \<open>utf8_encode (c # cs) =
     (case utf8_char c of
        Inl e \<Rightarrow> Inl e
      | Inr b \<Rightarrow> (case utf8_encode cs of Inl e \<Rightarrow> Inl e | Inr bs \<Rightarrow> Inr (b @ bs)))\<close>

text \<open>
  \<open>writer.writerows(data)\<close>: one \<open>file.write\<close> per row. The text layer encodes the
  whole row before it accepts it, so a row that cannot be encoded raises and writes nothing,
  and the rows before it stay written: the \<open>with\<close> statement closes, and so flushes, the
  file on the way out. The result is the bytes written and the exception, if any.
\<close>

fun writerows :: \<open>pystr list list \<Rightarrow> nat list \<times> exn option\<close> where
  \<open>writerows [] = ([], None)\<close>
| \<open>writerows (r # rs) =
     (case utf8_encode (csv_row r) of
        Inl e \<Rightarrow> ([], Some e)
      | Inr b \<Rightarrow> (case writerows rs of (bs, x) \<Rightarrow> (b @ bs, x)))\<close>

text \<open>
  \<open>open(self.csv_file, mode='a', ...)\<close> creates a missing file and positions every write
  at the end of an existing one.
\<close>

definition append_bytes :: \<open>string \<Rightarrow> nat list \<Rightarrow> nat list \<Rightarrow> 'w state \<Rightarrow> 'w state\<close> where
  \<open>append_bytes path old new st = st\<lparr>files := (files st)(path := Regular (old @ new))\<rparr>\<close>

definition open_append :: \<open>string \<Rightarrow> 'w state \<Rightarrow> 'w state\<close> where
  \<open>open_append path st = st\<lparr>calls := calls st @ [EvOpenAppend path]\<rparr>\<close>

definition write_opened :: \<open>scraper \<Rightarrow> pystr list list \<Rightarrow> nat list \<Rightarrow> 'w state \<Rightarrow> 'w result\<close> where
  \<open>write_opened self data old st =
     (case writerows data of
        (bs, None) \<Rightarrow>
          (Inr PyNone, logger INFO (RecordsWritten (length data))
                         (append_bytes (csv_file self) old bs st))
      | (bs, Some e) \<Rightarrow>
          (Inr PyNone, logger ERROR (ErrorWritingCSV e)
                         (append_bytes (csv_file self) old bs st)))\<close>

definition write_to_csv :: \<open>scraper \<Rightarrow> pystr list list \<Rightarrow> 'w state \<Rightarrow> 'w result\<close> where
  \<open>write_to_csv self data st =
     (let st1 = open_append (csv_file self) st in
      case files st1 (csv_file self) of
        Denied \<Rightarrow> (Inr PyNone, logger ERROR (ErrorWritingCSV OSError) st1)
      | Missing \<Rightarrow> write_opened self data [] st1
      | Regular old \<Rightarrow> write_opened self data old st1)\<close>

subsection \<open>scrape_products\<close>

text \<open>
  The body of the inner \<open>try\<close>: the three lookups in the order of the source, name, price,
  sold; the first exception ends it.
\<close>

definition extract_row :: \<open>('w, 'el) engine \<Rightarrow> 'w \<Rightarrow> 'el \<Rightarrow> exn + pystr list\<close> where
  \<open>extract_row eng w container =
     (case find_text eng w container (xvalue PRODUCT_NAME) of
        Inl e \<Rightarrow> Inl e
      | Inr product_name \<Rightarrow>
          (case find_text eng w container (xvalue PRODUCT_PRICE) of
             Inl e \<Rightarrow> Inl e
           | Inr product_price \<Rightarrow>
               (case find_text eng w container (xvalue PRODUCT_SOLD) of
                  Inl e \<Rightarrow> Inl e
                | Inr product_sold \<Rightarrow> Inr [product_name, product_price, product_sold])))\<close>

text \<open>
  The \<open>for container in product_containers\<close> loop, \<open>product_data\<close> its accumulator.
  \<open>NoSuchElementException\<close> is caught inside the loop and logged; any other exception
  leaves the loop.
\<close>

fun scrape_containers ::
  \<open>('w, 'el) engine \<Rightarrow> 'el list \<Rightarrow> pystr list list \<Rightarrow> 'w state \<Rightarrow> (exn + pystr list list) \<times> 'w state\<close>
where
  \<open>scrape_containers eng [] product_data st = (Inr product_data, st)\<close>
| \<open>scrape_containers eng (container # rest) product_data st =
     (case extract_row eng (world st) container of
        Inr row \<Rightarrow> scrape_containers eng rest (product_data @ [row]) st
      | Inl e \<Rightarrow>
          (if e = NoSuchElementException
           then scrape_containers eng rest product_data (logger ERROR (DetailsNotFound e) st)
           else (Inl e, st)))\<close>

text \<open>The two handlers of the outer \<open>try\<close>, \<open>except TimeoutException\<close> first.\<close>

definition scrape_handler :: \<open>exn \<Rightarrow> 'w state \<Rightarrow> 'w result\<close> where
  \<open>scrape_handler e st =
     (if e = TimeoutException then (Inr PyNone, logger ERROR TimedOutWaiting st)
      else (Inr PyNone, logger ERROR (ErrorScrapingProducts e) st))\<close>

definition scrape_products :: \<open>scraper \<Rightarrow> ('w, 'el) engine \<Rightarrow> 'w state \<Rightarrow> 'w result\<close> where
  \<open>scrape_products self eng st =
     (case wait_presence eng (world st) 10 (xvalue PRODUCT_CONTAINER) of
        (Inl e, w) \<Rightarrow>
          scrape_handler e (called (EvWaitPresence 10 (xvalue PRODUCT_CONTAINER)) w st)
      | (Inr product_containers, w) \<Rightarrow>
          (case scrape_containers eng product_containers []
                  (logger INFO (FoundProducts (length product_containers))
                     (called (EvWaitPresence 10 (xvalue PRODUCT_CONTAINER)) w st)) of
             (Inl e, st1) \<Rightarrow> scrape_handler e st1
           | (Inr product_data, st1) \<Rightarrow>
               (case write_to_csv self product_data st1 of
                  (Inl e, st2) \<Rightarrow> scrape_handler e st2
                | (Inr _, st2) \<Rightarrow> (Inr PyNone, st2))))\<close>

subsection \<open>go_to_next_page\<close>

definition next_handler :: \<open>exn \<Rightarrow> 'w state \<Rightarrow> 'w result\<close> where
  \<open>next_handler e st =
     (if e = TimeoutException then (Inr PyNone, logger WARNING NextNotClickable st)
      else (Inr PyNone, logger ERROR (ErrorNavigating e) st))\<close>

definition go_to_next_page :: \<open>('w, 'el) engine \<Rightarrow> 'w state \<Rightarrow> 'w result\<close> where
  \<open>go_to_next_page eng st =
     (case wait_clickable eng (world st) 10 (xvalue NEXT_PAGE) of
        (Inl e, w) \<Rightarrow> next_handler e (called (EvWaitClickable 10 (xvalue NEXT_PAGE)) w st)
      | (Inr next_page_button, w) \<Rightarrow>
          (case click eng w next_page_button of
             (Some e, w') \<Rightarrow>
               next_handler e
                 (called EvClick w' (called (EvWaitClickable 10 (xvalue NEXT_PAGE)) w st))
           | (None, w') \<Rightarrow>
               (Inr PyNone,
                sleep 3 (logger INFO NavigatedNext
                  (called EvClick w' (called (EvWaitClickable 10 (xvalue NEXT_PAGE)) w st))))))\<close>

subsection \<open>scrape_all_pages\<close>

text \<open>The body of the \<open>try\<close> inside the page loop; \<open>page\<close> is the loop variable.\<close>

definition page_body :: \<open>scraper \<Rightarrow> ('w, 'el) engine \<Rightarrow> int \<Rightarrow> nat \<Rightarrow> 'w state \<Rightarrow> 'w result\<close> where
  \<open>page_body self eng pages page st =
     (case scrape_products self eng (logger INFO (ScrapingPage (int page + 1) pages) st) of
        (Inl e, st1) \<Rightarrow> (Inl e, st1)
      | (Inr _, st1) \<Rightarrow>
          (if int page < pages - 1 then go_to_next_page eng st1 else (Inr PyNone, st1)))\<close>

text \<open>
  \<open>for page in range(pages)\<close> over the indices still to come; an exception of the body is
  logged and breaks the loop.
\<close>

fun page_loop :: \<open>scraper \<Rightarrow> ('w, 'el) engine \<Rightarrow> int \<Rightarrow> nat list \<Rightarrow> 'w state \<Rightarrow> 'w state\<close> where
  \<open>page_loop self eng pages [] st = st\<close>
| \<open>page_loop self eng pages (page # rest) st =
     (case page_body self eng pages page st of
        (Inl e, st1) \<Rightarrow> logger ERROR (ErrorScrapingPage (int page + 1) e) st1
      | (Inr _, st1) \<Rightarrow> page_loop self eng pages rest st1)\<close>

definition scrape_all_pages :: \<open>scraper \<Rightarrow> ('w, 'el) engine \<Rightarrow> int \<Rightarrow> 'w state \<Rightarrow> 'w result\<close> where
  \<open>scrape_all_pages self eng pages st =
     (case start_driver self eng st of
        (Inl e, st1) \<Rightarrow> (Inl e, st1)
      | (Inr _, st1) \<Rightarrow>
          (case quit_driver eng (page_loop self eng pages [0..<nat pages] st1) of
             (Inl e, st2) \<Rightarrow> (Inl e, st2)
           | (Inr _, st2) \<Rightarrow> (Inr PyNone, st2)))\<close>

section \<open>Observations\<close>

text \<open>
  The two bounded waits among the calls. Every \<open>scrape_products\<close> makes exactly one wait
  for the containers, its first call on the engine, and every \<open>go_to_next_page\<close> exactly one
  wait for the next-page control, so the waits of a run are its invocations of the two
  methods, in order.
\<close>

fun is_wait :: \<open>event \<Rightarrow> bool\<close> where
  \<open>is_wait (EvWaitPresence t x) = True\<close>
| \<open>is_wait (EvWaitClickable t x) = True\<close>
| \<open>is_wait ev = False\<close>

definition waits :: \<open>'w state \<Rightarrow> event list\<close> where
  \<open>waits st = filter is_wait (calls st)\<close>

text \<open>
  What the three lookups of a container answer, in the order the source makes them: name,
  price, sold.
\<close>

definition lookups :: \<open>('w, 'el) engine \<Rightarrow> 'w \<Rightarrow> 'el \<Rightarrow> (exn + pystr) list\<close> where
  \<open>lookups eng w container =
     [find_text eng w container (xvalue PRODUCT_NAME),
      find_text eng w container (xvalue PRODUCT_PRICE),
      find_text eng w container (xvalue PRODUCT_SOLD)]\<close>

text \<open>The bytes at a path: a missing file has none.\<close>

fun content :: \<open>fentry \<Rightarrow> nat list\<close> where
  \<open>content (Regular bs) = bs\<close>
| \<open>content Missing = []\<close>
| \<open>content Denied = []\<close>

section \<open>A scripted engine\<close>

text \<open>
  A small browser to run the methods on: a listing of pages, each a list of product cards
  whose name, price and sold count are present or not; a page index; whether the URL can
  be reached; whether the session is still alive. A wait for containers on a page without
  cards times out, the next-page control is clickable while a further page exists, and
  navigation, waits and clicks on a session that has been quit raise; quitting it again
  does not.
\<close>

datatype elem = Card \<open>pystr option\<close> \<open>pystr option\<close> \<open>pystr option\<close> | NextButton

record browser =
  alive :: bool
  reachable :: bool
  listing :: \<open>elem list list\<close>
  cur :: nat

definition current :: \<open>browser \<Rightarrow> elem list\<close> where
  \<open>current b = (if cur b < length (listing b) then listing b ! cur b else [])\<close>

definition field :: \<open>pystr option \<Rightarrow> exn + pystr\<close> where
  \<open>field t = (case t of None \<Rightarrow> Inl NoSuchElementException | Some s \<Rightarrow> Inr s)\<close>

definition fake_find :: \<open>browser \<Rightarrow> elem \<Rightarrow> string \<Rightarrow> exn + pystr\<close> where
  \<open>fake_find b el x =
     (case el of
        Card n p s \<Rightarrow>
          (if x = xvalue PRODUCT_NAME then field n
           else if x = xvalue PRODUCT_PRICE then field p
           else if x = xvalue PRODUCT_SOLD then field s
           else Inl NoSuchElementException)
      | NextButton \<Rightarrow> Inl NoSuchElementException)\<close>

definition fake_engine :: \<open>(browser, elem) engine\<close> where
  \<open>fake_engine =
     \<lparr>drv_get = (\<lambda>b u. if alive b \<and> reachable b then (None, b\<lparr>cur := 0\<rparr>)
                        else (Some OtherException, b)),
      wait_presence = (\<lambda>b t x. if alive b
                        then (case current b of [] \<Rightarrow> (Inl TimeoutException, b)
                                               | c # cs \<Rightarrow> (Inr (c # cs), b))
                        else (Inl OtherException, b)),
      find_text = fake_find,
      wait_clickable = (\<lambda>b t x. if alive b
                        then (if Suc (cur b) < length (listing b) then (Inr NextButton, b)
                              else (Inl TimeoutException, b))
                        else (Inl OtherException, b)),
      click = (\<lambda>b el. if alive b then (None, b\<lparr>cur := Suc (cur b)\<rparr>)
                        else (Some OtherException, b)),
      drv_quit = (\<lambda>b. (None, b\<lparr>alive := False\<rparr>))\<rparr>\<close>

text \<open>
  Three pages: two complete cards, then three cards of which the second has no price, then
  a page without cards.
\<close>

definition shop :: \<open>elem list list\<close> where
  \<open>shop =
     [[Card (Some [65]) (Some [49]) (Some [55]), Card (Some [66]) (Some [50]) (Some [56])],
      [Card (Some [67]) (Some [51]) (Some [57]), Card (Some [68]) None (Some [48]),
       Card (Some [69]) (Some [52]) (Some [49])],
      []]\<close>

definition fresh :: \<open>bool \<Rightarrow> elem list list \<Rightarrow> browser state\<close> where
  \<open>fresh ok pages =
     \<lparr>world = \<lparr>alive = True, reachable = ok, listing = pages, cur = 0\<rparr>,
      calls = [], logged = [], files = (\<lambda>p. Missing)\<rparr>\<close>

definition daraz :: scraper where
  \<open>daraz = \<lparr>url = ''https://www.daraz.pk/'', csv_file = ''daraz_products.csv''\<rparr>\<close>

text \<open>The texts of a card, empty where the card has none.\<close>

fun card_texts :: \<open>elem \<Rightarrow> pystr list\<close> where
  \<open>card_texts (Card n p s) = map (case_option [] id) [n, p, s]\<close>
| \<open>card_texts NextButton = []\<close>

section \<open>Projections of the state\<close>

declare xvalue.simps [simp del]

lemma world_logger [simp]: \<open>world (logger lv m st) = world st\<close>
  and calls_logger [simp]: \<open>calls (logger lv m st) = calls st\<close>
  and files_logger [simp]: \<open>files (logger lv m st) = files st\<close>
  and logged_logger [simp]: \<open>logged (logger lv m st) = logged st @ [(lv, m)]\<close>
  by (simp_all add: logger_def)

lemma world_called [simp]: \<open>world (called ev w st) = w\<close>
  and calls_called [simp]: \<open>calls (called ev w st) = calls st @ [ev]\<close>
  and files_called [simp]: \<open>files (called ev w st) = files st\<close>
  and logged_called [simp]: \<open>logged (called ev w st) = logged st\<close>
  by (simp_all add: called_def)

lemma world_sleep [simp]: \<open>world (sleep n st) = world st\<close>
  and calls_sleep [simp]: \<open>calls (sleep n st) = calls st @ [EvSleep n]\<close>
  and files_sleep [simp]: \<open>files (sleep n st) = files st\<close>
  and logged_sleep [simp]: \<open>logged (sleep n st) = logged st\<close>
  by (simp_all add: sleep_def)

section \<open>No method raises\<close>

lemma quit_driver_returns: \<open>fst (quit_driver eng st) = Inr PyNone\<close>
  by (simp add: quit_driver_def split: prod.splits option.splits)

lemma quit_driver_no_raise [simp]: \<open>quit_driver eng st \<noteq> (Inl e, st')\<close>
  using quit_driver_returns [of eng st] by auto

lemma start_driver_returns: \<open>fst (start_driver self eng st) = Inr PyNone\<close>
  by (simp add: start_driver_def Let_def split: prod.splits option.splits sum.splits)

lemma start_driver_no_raise [simp]: \<open>start_driver self eng st \<noteq> (Inl e, st')\<close>
  using start_driver_returns [of self eng st] by auto

lemma write_opened_returns: \<open>fst (write_opened self data old st) = Inr PyNone\<close>
  by (simp add: write_opened_def split: prod.splits option.splits)

lemma write_to_csv_returns: \<open>fst (write_to_csv self data st) = Inr PyNone\<close>
  by (simp add: write_to_csv_def Let_def write_opened_returns split: fentry.splits)

lemma write_to_csv_no_raise [simp]: \<open>write_to_csv self data st \<noteq> (Inl e, st')\<close>
  using write_to_csv_returns [of self data st] by auto

lemma scrape_handler_returns: \<open>fst (scrape_handler e st) = Inr PyNone\<close>
  by (simp add: scrape_handler_def)

lemma scrape_products_returns: \<open>fst (scrape_products self eng st) = Inr PyNone\<close>
  by (simp add: scrape_products_def scrape_handler_returns split: prod.splits sum.splits)

lemma scrape_products_no_raise [simp]: \<open>scrape_products self eng st \<noteq> (Inl e, st')\<close>
  using scrape_products_returns [of self eng st] by auto

lemma next_handler_returns: \<open>fst (next_handler e st) = Inr PyNone\<close>
  by (simp add: next_handler_def)

lemma go_to_next_page_returns: \<open>fst (go_to_next_page eng st) = Inr PyNone\<close>
  by (simp add: go_to_next_page_def next_handler_returns split: prod.splits sum.splits option.splits)

lemma go_to_next_page_no_raise [simp]: \<open>go_to_next_page eng st \<noteq> (Inl e, st')\<close>
  using go_to_next_page_returns [of eng st] by auto

lemma page_body_returns: \<open>fst (page_body self eng pages page st) = Inr PyNone\<close>
  by (simp add: page_body_def go_to_next_page_returns split: prod.splits sum.splits)

lemma page_body_no_raise [simp]: \<open>page_body self eng pages page st \<noteq> (Inl e, st')\<close>
  using page_body_returns [of self eng pages page st] by auto

text \<open>
  C8. \<open>quit_driver\<close> never raises, whatever \<open>driver.quit()\<close> does, also when it is called
  a second time on the state the first call left; and \<open>scrape_all_pages\<close> returns
  normally from every state, on every engine and for every page count.
\<close>

theorem errors_never_propagate:
  \<open>fst (quit_driver eng st) = Inr PyNone
   \<and> fst (quit_driver eng (snd (quit_driver eng st))) = Inr PyNone
   \<and> fst (scrape_all_pages self eng pages st) = Inr PyNone\<close>
  by (simp add: quit_driver_returns scrape_all_pages_def split: prod.splits sum.splits)

section \<open>The page loop\<close>

lemma waits_logger [simp]: \<open>waits (logger lv m st) = waits st\<close>
  and waits_called [simp]: \<open>waits (called ev w st) = waits st @ (if is_wait ev then [ev] else [])\<close>
  and waits_sleep [simp]: \<open>waits (sleep n st) = waits st\<close>
  by (simp_all add: waits_def)

lemma waits_quit_driver [simp]: \<open>waits (snd (quit_driver eng st)) = waits st\<close>
  by (simp add: quit_driver_def split: prod.splits option.splits)

lemma waits_start_driver [simp]: \<open>waits (snd (start_driver self eng st)) = waits st\<close>
  by (simp add: start_driver_def Let_def quit_driver_def split: prod.splits option.splits sum.splits)

lemma waits_write_to_csv [simp]: \<open>waits (snd (write_to_csv self data st)) = waits st\<close>
  by (simp add: write_to_csv_def write_opened_def open_append_def append_bytes_def Let_def waits_def
      split: prod.splits option.splits fentry.splits)

lemma waits_scrape_containers [simp]:
  \<open>waits (snd (scrape_containers eng cs pd st)) = waits st\<close>
  by (induction cs arbitrary: pd st) (simp_all split: sum.splits)

lemma waits_scrape_handler [simp]: \<open>waits (snd (scrape_handler e st)) = waits st\<close>
  by (simp add: scrape_handler_def)

lemma waits_next_handler [simp]: \<open>waits (snd (next_handler e st)) = waits st\<close>
  by (simp add: next_handler_def)

lemma snd_eqD: \<open>f = (a, b) \<Longrightarrow> b = snd f\<close>
  by simp

lemma waits_scrape_products:
  \<open>waits (snd (scrape_products self eng st)) =
     waits st @ [EvWaitPresence 10 (xvalue PRODUCT_CONTAINER)]\<close>
  by (auto simp: scrape_products_def split: prod.splits sum.splits dest!: snd_eqD)

lemma waits_go_to_next_page:
  \<open>waits (snd (go_to_next_page eng st)) =
     waits st @ [EvWaitClickable 10 (xvalue NEXT_PAGE)]\<close>
  by (auto simp: go_to_next_page_def split: prod.splits sum.splits option.splits dest!: snd_eqD)

lemma waits_page_body:
  \<open>waits (snd (page_body self eng pages page st)) =
     waits st @ EvWaitPresence 10 (xvalue PRODUCT_CONTAINER)
       # (if int page < pages - 1 then [EvWaitClickable 10 (xvalue NEXT_PAGE)] else [])\<close>
  by (auto simp: page_body_def waits_scrape_products waits_go_to_next_page
      split: prod.splits sum.splits dest!: snd_eqD)

lemma page_loop_Cons:
  \<open>page_loop self eng pages (page # rest) st =
     page_loop self eng pages rest (snd (page_body self eng pages page st))\<close>
  by (simp split: prod.splits sum.splits)

lemma waits_page_loop:
  \<open>n - Suc i = k \<Longrightarrow> i < n \<Longrightarrow>
   waits (page_loop self eng (int n) [i..<n] st) =
     waits st @ concat (replicate k
        [EvWaitPresence 10 (xvalue PRODUCT_CONTAINER), EvWaitClickable 10 (xvalue NEXT_PAGE)])
     @ [EvWaitPresence 10 (xvalue PRODUCT_CONTAINER)]\<close>
proof (induction k arbitrary: i st)
  case 0
  then have \<open>[i..<n] = [i]\<close> and \<open>\<not> int i < int n - 1\<close>
    by (auto simp: upt_rec [of i])
  then show ?case
    by (simp add: waits_page_body del: page_loop.simps(2) add: page_loop_Cons)
next
  case (Suc k)
  then have step: \<open>[i..<n] = i # [Suc i..<n]\<close> and more: \<open>int i < int n - 1\<close>
    and rest: \<open>n - Suc (Suc i) = k\<close> \<open>Suc i < n\<close>
    by (auto simp: upt_rec [of i])
  show ?case
    unfolding step page_loop_Cons
    by (simp add: Suc.IH [OF rest] waits_page_body more)
qed

lemma waits_scrape_all_pages:
  assumes \<open>1 \<le> pages\<close>
  shows \<open>waits (snd (scrape_all_pages self eng pages st)) =
           waits st @ concat (replicate (nat pages - 1)
             [EvWaitPresence 10 (xvalue PRODUCT_CONTAINER),
              EvWaitClickable 10 (xvalue NEXT_PAGE)])
           @ [EvWaitPresence 10 (xvalue PRODUCT_CONTAINER)]\<close>
proof -
  from assms have n: \<open>pages = int (nat pages)\<close> \<open>0 < nat pages\<close>
    by simp_all
  have \<open>waits (snd (scrape_all_pages self eng pages st)) =
          waits (page_loop self eng pages [0..<nat pages] (snd (start_driver self eng st)))\<close>
    by (auto simp: scrape_all_pages_def split: prod.splits sum.splits dest!: snd_eqD)
  also have \<open>\<dots> = waits (page_loop self eng (int (nat pages)) [0..<nat pages]
                        (snd (start_driver self eng st)))\<close>
    using n(1) by simp
  also have \<open>\<dots> = waits st @ concat (replicate (nat pages - 1)
             [EvWaitPresence 10 (xvalue PRODUCT_CONTAINER),
              EvWaitClickable 10 (xvalue NEXT_PAGE)])
           @ [EvWaitPresence 10 (xvalue PRODUCT_CONTAINER)]\<close>
    using waits_page_loop [of \<open>nat pages\<close> 0 \<open>nat pages - 1\<close> self eng
        \<open>snd (start_driver self eng st)\<close>] n(2)
    by simp
  finally show ?thesis .
qed

lemma count_list_pairs:
  \<open>a \<noteq> b \<Longrightarrow> count_list (concat (replicate k [a, b])) a = k
     \<and> count_list (concat (replicate k [a, b])) b = k\<close>
  by (induction k) auto

text \<open>
  C4. For a page count of at least one, the waits of a run are: the container wait of
  \<open>scrape_products\<close> followed by the next-page wait of \<open>go_to_next_page\<close>, once for
  every page index but the last, and then one container wait alone for the last index.
  So \<open>scrape_products\<close> runs \<open>pages\<close> times, \<open>go_to_next_page\<close> \<open>pages - 1\<close> times,
  after each page but the last, and nothing follows the last \<open>scrape_products\<close>.
\<close>

theorem one_scrape_per_page:
  assumes \<open>1 \<le> pages\<close>
  shows \<open>waits (snd (scrape_all_pages self eng pages st)) =
           waits st @ concat (replicate (nat pages - 1)
             [EvWaitPresence 10 (xvalue PRODUCT_CONTAINER),
              EvWaitClickable 10 (xvalue NEXT_PAGE)])
           @ [EvWaitPresence 10 (xvalue PRODUCT_CONTAINER)]
         \<and> count_list (waits (snd (scrape_all_pages self eng pages st)))
               (EvWaitPresence 10 (xvalue PRODUCT_CONTAINER)) =
             count_list (waits st) (EvWaitPresence 10 (xvalue PRODUCT_CONTAINER)) + nat pages
         \<and> count_list (waits (snd (scrape_all_pages self eng pages st)))
               (EvWaitClickable 10 (xvalue NEXT_PAGE)) =
             count_list (waits st) (EvWaitClickable 10 (xvalue NEXT_PAGE)) + (nat pages - 1)\<close>
  using assms
    count_list_pairs [of \<open>EvWaitPresence 10 (xvalue PRODUCT_CONTAINER)\<close>
      \<open>EvWaitClickable 10 (xvalue NEXT_PAGE)\<close> \<open>nat pages - 1\<close>]
  by (simp add: waits_scrape_all_pages)

theorem one_scrape_per_page_witness:
  \<open>(1::int) \<le> 3 \<and>
   waits (snd (scrape_all_pages daraz fake_engine 3 (fresh True shop))) =
     [EvWaitPresence 10 (xvalue PRODUCT_CONTAINER), EvWaitClickable 10 (xvalue NEXT_PAGE),
      EvWaitPresence 10 (xvalue PRODUCT_CONTAINER), EvWaitClickable 10 (xvalue NEXT_PAGE),
      EvWaitPresence 10 (xvalue PRODUCT_CONTAINER)]\<close>
  using one_scrape_per_page [of 3 daraz fake_engine \<open>fresh True shop\<close>]
  by (simp add: waits_def fresh_def numeral_eq_Suc)

section \<open>The container loop\<close>

lemma world_scrape_containers [simp]:
  \<open>world (snd (scrape_containers eng cs pd st)) = world st\<close>
  by (induction cs arbitrary: pd st) (simp_all split: sum.splits)

lemma scrape_containers_world:
  \<open>world st = world st' \<Longrightarrow>
   fst (scrape_containers eng cs pd st) = fst (scrape_containers eng cs pd st')\<close>
proof (induction cs arbitrary: pd st st')
  case Nil
  show ?case by simp
next
  case (Cons c cs)
  from Cons.prems have \<open>world (logger lv m st) = world (logger lv m st')\<close> for lv m
    by simp
  from Cons.IH [OF this] Cons.IH [OF Cons.prems] Cons.prems show ?case
    by (simp split: sum.splits)
qed

lemma scrape_containers_logger [simp]:
  \<open>fst (scrape_containers eng cs pd (logger lv m st)) = fst (scrape_containers eng cs pd st)\<close>
  by (rule scrape_containers_world) simp

lemma scrape_containers_append:
  \<open>fst (scrape_containers eng (xs @ ys) pd st) =
     (case fst (scrape_containers eng xs pd st) of
        Inl e \<Rightarrow> Inl e
      | Inr pd' \<Rightarrow> fst (scrape_containers eng ys pd' st))\<close>
proof (induction xs arbitrary: pd st)
  case Nil
  show ?case by simp
next
  case (Cons x xs)
  show ?case
  proof (cases \<open>extract_row eng (world st) x\<close>)
    case (Inl e)
    then show ?thesis
      by (simp add: Cons.IH split: sum.splits)
  next
    case (Inr row)
    then show ?thesis
      by (simp add: Cons.IH)
  qed
qed

lemma scrape_containers_acc:
  \<open>fst (scrape_containers eng cs pd st) =
     (case fst (scrape_containers eng cs [] st) of
        Inl e \<Rightarrow> Inl e
      | Inr batch \<Rightarrow> Inr (pd @ batch))\<close>
proof (induction cs arbitrary: pd st)
  case Nil
  show ?case by simp
next
  case (Cons c cs)
  show ?case
  proof (cases \<open>extract_row eng (world st) c\<close>)
    case (Inl e)
    have \<open>fst (scrape_containers eng cs pd st) =
          (case fst (scrape_containers eng cs [] st) of
             Inl e \<Rightarrow> Inl e | Inr batch \<Rightarrow> Inr (pd @ batch))\<close>
      by (rule Cons.IH)
    with Inl show ?thesis by simp
  next
    case (Inr row)
    have \<open>fst (scrape_containers eng cs (pd @ [row]) st) =
          (case fst (scrape_containers eng cs [] st) of
             Inl e \<Rightarrow> Inl e | Inr batch \<Rightarrow> Inr ((pd @ [row]) @ batch))\<close>
      by (rule Cons.IH)
    moreover have \<open>fst (scrape_containers eng cs [row] st) =
          (case fst (scrape_containers eng cs [] st) of
             Inl e \<Rightarrow> Inl e | Inr batch \<Rightarrow> Inr ([row] @ batch))\<close>
      by (rule Cons.IH)
    ultimately show ?thesis
      using Inr by (cases \<open>fst (scrape_containers eng cs [] st)\<close>) simp_all
  qed
qed

lemma extract_row_lookups:
  \<open>lookups eng w c = [Inr n, Inr p, Inr s] \<Longrightarrow> extract_row eng w c = Inr [n, p, s]\<close>
  by (simp add: lookups_def extract_row_def)

lemma extract_row_missing:
  assumes \<open>set (lookups eng w c) \<subseteq> insert (Inl NoSuchElementException) (range Inr)\<close>
    and \<open>Inl NoSuchElementException \<in> set (lookups eng w c)\<close>
  shows \<open>extract_row eng w c = Inl NoSuchElementException\<close>
proof -
  let ?n = \<open>find_text eng w c (xvalue PRODUCT_NAME)\<close>
  let ?p = \<open>find_text eng w c (xvalue PRODUCT_PRICE)\<close>
  let ?s = \<open>find_text eng w c (xvalue PRODUCT_SOLD)\<close>
  have ok: \<open>r = Inl e \<Longrightarrow> r \<in> {?n, ?p, ?s} \<Longrightarrow> e = NoSuchElementException\<close> for r e
    using assms(1) by (auto simp: lookups_def)
  have some: \<open>?n = Inl NoSuchElementException \<or> ?p = Inl NoSuchElementException
      \<or> ?s = Inl NoSuchElementException\<close>
    using assms(2) by (auto simp: lookups_def)
  show ?thesis
  proof (cases ?n)
    case (Inl e)
    with ok [of ?n e] show ?thesis by (simp add: extract_row_def)
  next
    case n: (Inr a)
    show ?thesis
    proof (cases ?p)
      case (Inl e)
      with n ok [of ?p e] show ?thesis by (simp add: extract_row_def)
    next
      case p: (Inr b)
      show ?thesis
      proof (cases ?s)
        case (Inl e)
        with n p ok [of ?s e] show ?thesis by (simp add: extract_row_def)
      next
        case (Inr d)
        with n p some show ?thesis by simp
      qed
    qed
  qed
qed

lemma scrape_containers_complete:
  \<open>\<forall>c\<in>set cs. extract_row eng (world st) c = Inr (row c) \<Longrightarrow>
   scrape_containers eng cs pd st = (Inr (pd @ map row cs), st)\<close>
  by (induction cs arbitrary: pd) simp_all

text \<open>
  C1. When the wait answers with the containers \<open>cs\<close> and each of them has its name, its
  price and its sold count, \<open>scrape_products\<close> collects one row per container, in the
  order of \<open>cs\<close>, each row the three texts of its container, and hands exactly that
  list to \<open>write_to_csv\<close>.
\<close>

theorem complete_page_batch:
  assumes \<open>wait_presence eng (world st) 10 (xvalue PRODUCT_CONTAINER) = (Inr cs, w)\<close>
    and \<open>\<forall>c\<in>set cs. lookups eng w c = [Inr (name c), Inr (price c), Inr (sold c)]\<close>
  shows \<open>scrape_containers eng cs []
            (logger INFO (FoundProducts (length cs))
               (called (EvWaitPresence 10 (xvalue PRODUCT_CONTAINER)) w st)) =
           (Inr (map (\<lambda>c. [name c, price c, sold c]) cs),
            logger INFO (FoundProducts (length cs))
               (called (EvWaitPresence 10 (xvalue PRODUCT_CONTAINER)) w st))
         \<and> scrape_products self eng st =
             write_to_csv self (map (\<lambda>c. [name c, price c, sold c]) cs)
               (logger INFO (FoundProducts (length cs))
                  (called (EvWaitPresence 10 (xvalue PRODUCT_CONTAINER)) w st))
         \<and> length (map (\<lambda>c. [name c, price c, sold c]) cs) = length cs\<close>
proof -
  let ?st1 = \<open>logger INFO (FoundProducts (length cs))
               (called (EvWaitPresence 10 (xvalue PRODUCT_CONTAINER)) w st)\<close>
  let ?batch = \<open>map (\<lambda>c. [name c, price c, sold c]) cs\<close>
  from assms(2) have \<open>\<forall>c\<in>set cs. extract_row eng (world ?st1) c = Inr [name c, price c, sold c]\<close>
    by (simp add: extract_row_lookups)
  then have loop: \<open>scrape_containers eng cs [] ?st1 = (Inr ([] @ ?batch), ?st1)\<close>
    by (rule scrape_containers_complete)
  obtain r st2 where written: \<open>write_to_csv self ?batch ?st1 = (r, st2)\<close>
    by (cases \<open>write_to_csv self ?batch ?st1\<close>)
  with write_to_csv_returns [of self ?batch ?st1] have \<open>r = Inr PyNone\<close>
    by simp
  with loop assms(1) written
  have \<open>scrape_products self eng st = write_to_csv self ?batch ?st1\<close>
    by (simp add: scrape_products_def)
  with loop show ?thesis by simp
qed

theorem complete_page_batch_witness:
  \<open>wait_presence fake_engine (world (fresh True shop)) 10 (xvalue PRODUCT_CONTAINER) =
     (Inr [Card (Some [65]) (Some [49]) (Some [55]), Card (Some [66]) (Some [50]) (Some [56])],
      world (fresh True shop))
   \<and> scrape_products daraz fake_engine (fresh True shop) =
       write_to_csv daraz [[[65], [49], [55]], [[66], [50], [56]]]
         (logger INFO (FoundProducts 2)
            (called (EvWaitPresence 10 (xvalue PRODUCT_CONTAINER)) (world (fresh True shop))
               (fresh True shop)))\<close>
proof -
  let ?cs = \<open>[Card (Some [65]) (Some [49]) (Some [55]), Card (Some [66]) (Some [50]) (Some [56])]\<close>
  let ?w = \<open>world (fresh True shop)\<close>
  have wait: \<open>wait_presence fake_engine ?w 10 (xvalue PRODUCT_CONTAINER) = (Inr ?cs, ?w)\<close>
    by (simp add: fake_engine_def fresh_def shop_def current_def)
  have all: \<open>\<forall>c\<in>set ?cs. lookups fake_engine ?w c =
      [Inr (card_texts c ! 0), Inr (card_texts c ! 1), Inr (card_texts c ! 2)]\<close>
    by (simp add: lookups_def fake_engine_def fake_find_def field_def xvalue.simps)
  have rows: \<open>map (\<lambda>c. [card_texts c ! 0, card_texts c ! 1, card_texts c ! 2]) ?cs =
      [[[65], [49], [55]], [[66], [50], [56]]]\<close>
    by simp
  have two: \<open>length ?cs = 2\<close>
    by simp
  from complete_page_batch [OF wait all, of daraz]
  have \<open>scrape_products daraz fake_engine (fresh True shop) =
      write_to_csv daraz (map (\<lambda>c. [card_texts c ! 0, card_texts c ! 1, card_texts c ! 2]) ?cs)
        (logger INFO (FoundProducts (length ?cs))
           (called (EvWaitPresence 10 (xvalue PRODUCT_CONTAINER)) ?w (fresh True shop)))\<close>
    by (elim conjE)
  then have \<open>scrape_products daraz fake_engine (fresh True shop) =
      write_to_csv daraz [[[65], [49], [55]], [[66], [50], [56]]]
        (logger INFO (FoundProducts 2)
           (called (EvWaitPresence 10 (xvalue PRODUCT_CONTAINER)) ?w (fresh True shop)))\<close>
    unfolding rows two .
  with wait show ?thesis
    by (intro conjI)
qed

text \<open>
  C3. A container of which every lookup either finds its text or raises
  \<open>NoSuchElementException\<close>, and at least one raises it, adds no row: the loop gives what
  it gives on the page without that container, so the rows of the containers before and
  after it are the same, in the same order. Had the container been complete, the batch
  would hold its one row between the two parts.
\<close>

theorem missing_field_skips_one:
  assumes \<open>set (lookups eng (world st) c) \<subseteq> insert (Inl NoSuchElementException) (range Inr)\<close>
    and \<open>Inl NoSuchElementException \<in> set (lookups eng (world st) c)\<close>
  shows \<open>fst (scrape_containers eng (pre @ c # post) pd st) =
           fst (scrape_containers eng (pre @ post) pd st)
         \<and> (lookups eng (world st) c' = [Inr n, Inr p, Inr s] \<longrightarrow>
              fst (scrape_containers eng (pre @ post) pd st) = Inr batch \<longrightarrow>
              (\<exists>before after. batch = before @ after
                 \<and> fst (scrape_containers eng pre pd st) = Inr before
                 \<and> fst (scrape_containers eng (pre @ c # post) pd st) = Inr (before @ after)
                 \<and> fst (scrape_containers eng (pre @ c' # post) pd st) =
                     Inr (before @ [[n, p, s]] @ after)))\<close>
proof -
  have miss: \<open>extract_row eng (world st) c = Inl NoSuchElementException\<close>
    using assms by (rule extract_row_missing)
  have skip: \<open>fst (scrape_containers eng (c # post) acc st) =
              fst (scrape_containers eng post acc st)\<close> for acc
    using miss by simp
  have eq: \<open>fst (scrape_containers eng (pre @ c # post) pd st) =
           fst (scrape_containers eng (pre @ post) pd st)\<close>
    by (simp only: scrape_containers_append [of eng pre] skip)
  moreover have \<open>\<exists>before after. batch = before @ after
                 \<and> fst (scrape_containers eng pre pd st) = Inr before
                 \<and> fst (scrape_containers eng (pre @ c # post) pd st) = Inr (before @ after)
                 \<and> fst (scrape_containers eng (pre @ c' # post) pd st) =
                     Inr (before @ [[n, p, s]] @ after)\<close>
    if full: \<open>lookups eng (world st) c' = [Inr n, Inr p, Inr s]\<close>
      and res: \<open>fst (scrape_containers eng (pre @ post) pd st) = Inr batch\<close>
  proof -
    from res obtain before where
      pre: \<open>fst (scrape_containers eng pre pd st) = Inr before\<close>
      and post: \<open>fst (scrape_containers eng post before st) = Inr batch\<close>
      by (auto simp: scrape_containers_append [of eng pre] split: sum.splits)
    from post obtain after where
      after: \<open>fst (scrape_containers eng post [] st) = Inr after\<close>
      and batch: \<open>batch = before @ after\<close>
      by (auto simp: scrape_containers_acc [of eng post before] split: sum.splits)
    have row: \<open>extract_row eng (world st) c' = Inr [n, p, s]\<close>
      using full by (rule extract_row_lookups)
    have \<open>fst (scrape_containers eng (pre @ c' # post) pd st) =
          fst (scrape_containers eng post (before @ [[n, p, s]]) st)\<close>
      by (simp add: scrape_containers_append [of eng pre] pre row)
    also have \<open>\<dots> = Inr ((before @ [[n, p, s]]) @ after)\<close>
      by (simp add: scrape_containers_acc [of eng post \<open>before @ [[n, p, s]]\<close>] after)
    finally have \<open>fst (scrape_containers eng (pre @ c' # post) pd st) =
        Inr (before @ [[n, p, s]] @ after)\<close>
      by simp
    with pre batch eq res show ?thesis by auto
  qed
  ultimately show ?thesis by blast
qed

theorem missing_field_skips_one_witness:
  \<open>lookups fake_engine (world (fresh True shop)) (Card (Some [68]) None (Some [48])) =
     [Inr [68], Inl NoSuchElementException, Inr [48]]
   \<and> fst (scrape_containers fake_engine
         ([Card (Some [67]) (Some [51]) (Some [57])] @ Card (Some [68]) None (Some [48])
            # [Card (Some [69]) (Some [52]) (Some [49])]) [] (fresh True shop)) =
       Inr [[[67], [51], [57]], [[69], [52], [49]]]
   \<and> (\<exists>before after. [[[67], [51], [57]], [[69], [52], [49]]] = before @ after
         \<and> fst (scrape_containers fake_engine
               ([Card (Some [67]) (Some [51]) (Some [57])]
                  @ Card (Some [70]) (Some [53]) (Some [50])
                  # [Card (Some [69]) (Some [52]) (Some [49])]) [] (fresh True shop)) =
             Inr (before @ [[[70], [53], [50]]] @ after))\<close>
proof -
  let ?st = \<open>fresh True shop\<close>
  let ?c = \<open>Card (Some [68]) None (Some [48])\<close>
  let ?pre = \<open>[Card (Some [67]) (Some [51]) (Some [57])]\<close>
  let ?post = \<open>[Card (Some [69]) (Some [52]) (Some [49])]\<close>
  have look: \<open>lookups fake_engine (world ?st) ?c = [Inr [68], Inl NoSuchElementException, Inr [48]]\<close>
    by (simp add: lookups_def fake_engine_def fake_find_def field_def xvalue.simps)
  then have h1: \<open>set (lookups fake_engine (world ?st) ?c)
      \<subseteq> insert (Inl NoSuchElementException) (range Inr)\<close>
    and h2: \<open>Inl NoSuchElementException \<in> set (lookups fake_engine (world ?st) ?c)\<close>
    by simp_all
  have full: \<open>lookups fake_engine (world ?st) (Card (Some [70]) (Some [53]) (Some [50])) =
      [Inr [70], Inr [53], Inr [50]]\<close>
    by (simp add: lookups_def fake_engine_def fake_find_def field_def xvalue.simps)
  have res: \<open>fst (scrape_containers fake_engine (?pre @ ?post) [] ?st) =
      Inr [[[67], [51], [57]], [[69], [52], [49]]]\<close>
    by (simp add: extract_row_def fake_engine_def fake_find_def field_def xvalue.simps)
  from missing_field_skips_one [OF h1 h2, of ?pre ?post \<open>[]\<close>
      \<open>Card (Some [70]) (Some [53]) (Some [50])\<close> \<open>[70]\<close> \<open>[53]\<close> \<open>[50]\<close>
      \<open>[[[67], [51], [57]], [[69], [52], [49]]]\<close>] full res look
  show ?thesis
    by metis
qed

section \<open>A page whose wait times out\<close>

text \<open>
  C2, as the code has it. When the wait for the containers raises \<open>TimeoutException\<close>,
  \<open>scrape_products\<close> logs the timeout as an error and returns \<open>None\<close> without raising;
  \<open>write_to_csv\<close> is inside the \<open>try\<close> that the exception leaves, so it is not called:
  the only call made is the wait, and no file is opened, created or changed.
\<close>

theorem timeout_skips_write:
  assumes \<open>wait_presence eng (world st) 10 (xvalue PRODUCT_CONTAINER) = (Inl TimeoutException, w)\<close>
  shows \<open>scrape_products self eng st =
           (Inr PyNone,
            logger ERROR TimedOutWaiting
              (called (EvWaitPresence 10 (xvalue PRODUCT_CONTAINER)) w st))
         \<and> calls (snd (scrape_products self eng st)) =
             calls st @ [EvWaitPresence 10 (xvalue PRODUCT_CONTAINER)]
         \<and> files (snd (scrape_products self eng st)) = files st\<close>
  using assms by (simp add: scrape_products_def scrape_handler_def)

theorem timeout_skips_write_witness:
  \<open>wait_presence fake_engine (world (fresh True [[]])) 10 (xvalue PRODUCT_CONTAINER) =
     (Inl TimeoutException, world (fresh True [[]]))
   \<and> scrape_products daraz fake_engine (fresh True [[]]) =
       (Inr PyNone,
        logger ERROR TimedOutWaiting
          (called (EvWaitPresence 10 (xvalue PRODUCT_CONTAINER)) (world (fresh True [[]]))
             (fresh True [[]])))\<close>
proof -
  have wait: \<open>wait_presence fake_engine (world (fresh True [[]])) 10 (xvalue PRODUCT_CONTAINER) =
     (Inl TimeoutException, world (fresh True [[]]))\<close>
    by (simp add: fake_engine_def fresh_def current_def)
  from timeout_skips_write [OF wait, of daraz] wait show ?thesis
    by (intro conjI) (elim conjE, assumption)+
qed

text \<open>
  The claim as the specification has it fails on a page without cards: the wait times
  out, the run makes no call but the wait, and the output file is still missing
  afterwards, while handing the empty batch to \<open>write_to_csv\<close> would have created it.
\<close>

theorem timeout_reaches_no_sink:
  \<open>fst (wait_presence fake_engine (world (fresh True [[]])) 10 (xvalue PRODUCT_CONTAINER)) =
     Inl TimeoutException
   \<and> calls (snd (scrape_products daraz fake_engine (fresh True [[]]))) =
       [EvWaitPresence 10 (xvalue PRODUCT_CONTAINER)]
   \<and> logged (snd (scrape_products daraz fake_engine (fresh True [[]]))) =
       [(ERROR, TimedOutWaiting)]
   \<and> files (snd (scrape_products daraz fake_engine (fresh True [[]]))) (csv_file daraz) = Missing
   \<and> files (snd (write_to_csv daraz [] (fresh True [[]]))) (csv_file daraz) = Regular []\<close>
  by (simp add: scrape_products_def scrape_handler_def fake_engine_def fresh_def current_def
      write_to_csv_def write_opened_def open_append_def append_bytes_def daraz_def)

section \<open>The next page\<close>

text \<open>
  C5, as the code has it. \<open>go_to_next_page\<close> has no \<open>return\<close> statement: it returns
  \<open>None\<close> on every path and never raises. When the next-page control becomes clickable
  within the wait of 10 and the click succeeds, it clicks, logs and sleeps 3; when the wait
  times out, it logs a warning and neither clicks nor sleeps.
\<close>

theorem next_page_click_or_warning:
  \<open>fst (go_to_next_page eng st) = Inr PyNone
   \<and> (wait_clickable eng (world st) 10 (xvalue NEXT_PAGE) = (Inr button, w) \<longrightarrow>
        click eng w button = (None, w') \<longrightarrow>
        snd (go_to_next_page eng st) =
          sleep 3 (logger INFO NavigatedNext
            (called EvClick w' (called (EvWaitClickable 10 (xvalue NEXT_PAGE)) w st))))
   \<and> (wait_clickable eng (world st) 10 (xvalue NEXT_PAGE) = (Inl TimeoutException, w) \<longrightarrow>
        snd (go_to_next_page eng st) =
          logger WARNING NextNotClickable
            (called (EvWaitClickable 10 (xvalue NEXT_PAGE)) w st))\<close>
  by (simp add: go_to_next_page_returns) (simp add: go_to_next_page_def next_handler_def)

theorem next_page_click_or_warning_witness:
  \<open>wait_clickable fake_engine (world (fresh True shop)) 10 (xvalue NEXT_PAGE) =
     (Inr NextButton, world (fresh True shop))
   \<and> click fake_engine (world (fresh True shop)) NextButton =
       (None, (world (fresh True shop))\<lparr>cur := 1\<rparr>)
   \<and> calls (snd (go_to_next_page fake_engine (fresh True shop))) =
       [EvWaitClickable 10 (xvalue NEXT_PAGE), EvClick, EvSleep 3]
   \<and> wait_clickable fake_engine (world (fresh True [[]])) 10 (xvalue NEXT_PAGE) =
       (Inl TimeoutException, world (fresh True [[]]))
   \<and> calls (snd (go_to_next_page fake_engine (fresh True [[]]))) =
       [EvWaitClickable 10 (xvalue NEXT_PAGE)]
   \<and> logged (snd (go_to_next_page fake_engine (fresh True [[]]))) =
       [(WARNING, NextNotClickable)]\<close>
proof -
  have a: \<open>wait_clickable fake_engine (world (fresh True shop)) 10 (xvalue NEXT_PAGE) =
     (Inr NextButton, world (fresh True shop))\<close>
    by (simp add: fake_engine_def fresh_def shop_def)
  have b: \<open>click fake_engine (world (fresh True shop)) NextButton =
       (None, (world (fresh True shop))\<lparr>cur := 1\<rparr>)\<close>
    by (simp add: fake_engine_def fresh_def)
  have c: \<open>wait_clickable fake_engine (world (fresh True [[]])) 10 (xvalue NEXT_PAGE) =
       (Inl TimeoutException, world (fresh True [[]]))\<close>
    by (simp add: fake_engine_def fresh_def)
  have d: \<open>calls (fresh True pages) = []\<close> \<open>logged (fresh True pages) = []\<close> for pages
    by (simp_all add: fresh_def)
  from next_page_click_or_warning [of fake_engine \<open>fresh True shop\<close> NextButton
      \<open>world (fresh True shop)\<close> \<open>(world (fresh True shop))\<lparr>cur := 1\<rparr>\<close>] a b
  have \<open>calls (snd (go_to_next_page fake_engine (fresh True shop))) =
       [EvWaitClickable 10 (xvalue NEXT_PAGE), EvClick, EvSleep 3]\<close>
    by (simp add: d)
  moreover
  from next_page_click_or_warning [of fake_engine \<open>fresh True [[]]\<close> _
      \<open>world (fresh True [[]])\<close>] c
  have \<open>calls (snd (go_to_next_page fake_engine (fresh True [[]]))) =
       [EvWaitClickable 10 (xvalue NEXT_PAGE)]
     \<and> logged (snd (go_to_next_page fake_engine (fresh True [[]]))) =
       [(WARNING, NextNotClickable)]\<close>
    by (simp add: d)
  ultimately show ?thesis
    using a b c by simp
qed

text \<open>
  The claim as the specification has it fails on both sides: where the control is
  clickable and is clicked, the method returns \<open>None\<close>, not true; where the wait times
  out, it returns \<open>None\<close>, not false.
\<close>

theorem next_page_returns_no_boolean:
  \<open>fst (wait_clickable fake_engine (world (fresh True shop)) 10 (xvalue NEXT_PAGE)) =
     Inr NextButton
   \<and> EvClick \<in> set (calls (snd (go_to_next_page fake_engine (fresh True shop))))
   \<and> fst (go_to_next_page fake_engine (fresh True shop)) = Inr PyNone
   \<and> fst (go_to_next_page fake_engine (fresh True shop)) \<noteq> Inr (PyBool True)
   \<and> fst (wait_clickable fake_engine (world (fresh True [[]])) 10 (xvalue NEXT_PAGE)) =
       Inl TimeoutException
   \<and> fst (go_to_next_page fake_engine (fresh True [[]])) = Inr PyNone
   \<and> fst (go_to_next_page fake_engine (fresh True [[]])) \<noteq> Inr (PyBool False)\<close>
  by (simp add: go_to_next_page_def next_handler_def fake_engine_def fresh_def shop_def)

section \<open>A URL that cannot be opened\<close>

text \<open>
  \<open>start_driver\<close> catches the exception of \<open>driver.get\<close>, logs it, quits the driver and
  returns \<open>None\<close> like a successful call; \<open>scrape_all_pages\<close> has no way to tell the two
  apart, runs the page loop on the session that has been quit and then quits it again.
  The two theorems below run the code on the scripted engine with a URL that cannot be
  reached and two pages asked for.

  C6 on the code. The run calls \<open>driver.quit()\<close> twice, once in \<open>start_driver\<close> and
  once at the end of \<open>scrape_all_pages\<close>, where the claim has exactly one close. (On
  every engine a run quits once when \<open>driver.get\<close> succeeds and twice when it raises:
  \<open>quits_scrape_all_pages\<close>, in the last section.)
\<close>

theorem failed_open_quits_twice:
  \<open>count_list (calls (snd (scrape_all_pages daraz fake_engine 2 (fresh False shop)))) EvQuit = 2\<close>
  by code_simp

text \<open>
  C7 on the code. After the failed \<open>driver.get\<close> and the \<open>driver.quit()\<close> that follows
  it, the run still calls \<open>scrape_products\<close> for both pages and \<open>go_to_next_page\<close>
  between them: each wait raises on the dead session and is logged as an error, where the
  claim has no such call after a failed open.
\<close>

theorem failed_open_keeps_scraping:
  \<open>calls (snd (scrape_all_pages daraz fake_engine 2 (fresh False shop))) =
     [EvGet (url daraz), EvQuit,
      EvWaitPresence 10 (xvalue PRODUCT_CONTAINER), EvWaitClickable 10 (xvalue NEXT_PAGE),
      EvWaitPresence 10 (xvalue PRODUCT_CONTAINER),
      EvQuit]
   \<and> logged (snd (scrape_all_pages daraz fake_engine 2 (fresh False shop))) =
     [(INFO, OpeningURL (url daraz)), (ERROR, FailedToOpenURL OtherException),
      (INFO, DriverClosed),
      (INFO, ScrapingPage 1 2), (ERROR, ErrorScrapingProducts OtherException),
      (ERROR, ErrorNavigating OtherException),
      (INFO, ScrapingPage 2 2), (ERROR, ErrorScrapingProducts OtherException),
      (INFO, DriverClosed)]\<close>
  by code_simp

section \<open>The output file\<close>

lemma utf8_encode_examples:
  \<open>utf8_encode [36, 163, 8364, 66376] =
     Inr [36, 194, 163, 226, 130, 172, 240, 144, 141, 136]\<close>
  \<open>utf8_encode [65, 55296] = Inl UnicodeEncodeError\<close>
  by (simp_all add: utf8_char_def)

lemma writerows_examples:
  \<open>writerows [[[97, 44, 98], [113, 34, 120], [108, 10, 109]], [[], [], []],
              [[8364], [32, 120, 32], [13]]] =
     ([34, 97, 44, 98, 34, 44, 34, 113, 34, 34, 120, 34, 44, 34, 108, 10, 109, 34, 13, 10,
       44, 44, 13, 10,
       226, 130, 172, 44, 32, 120, 32, 44, 34, 13, 34, 13, 10], None)\<close>
  \<open>writerows [[[]], [], [[120]]] = ([34, 34, 13, 10, 13, 10, 120, 13, 10], None)\<close>
  by (simp_all add: csv_row_def csv_field_def utf8_char_def)

lemma writerows_encoded:
  \<open>list_all2 (\<lambda>row bytes. utf8_encode (csv_row row) = Inr bytes) data bs \<Longrightarrow>
   writerows data = (concat bs, None)\<close>
  by (induction rule: list_all2_induct) simp_all

lemma writerows_failed:
  \<open>writerows data = (bs, Some e) \<Longrightarrow>
   \<exists>written row rest bss. data = written @ row # rest
     \<and> list_all2 (\<lambda>row bytes. utf8_encode (csv_row row) = Inr bytes) written bss
     \<and> bs = concat bss \<and> utf8_encode (csv_row row) = Inl e\<close>
proof (induction data arbitrary: bs)
  case Nil
  then show ?case by simp
next
  case (Cons r rs)
  show ?case
  proof (cases \<open>utf8_encode (csv_row r)\<close>)
    case (Inl e')
    with Cons.prems have \<open>bs = concat []\<close> \<open>e' = e\<close>
      by simp_all
    with Inl have \<open>r # rs = [] @ r # rs
      \<and> list_all2 (\<lambda>row bytes. utf8_encode (csv_row row) = Inr bytes) [] []
      \<and> bs = concat [] \<and> utf8_encode (csv_row r) = Inl e\<close>
      by simp
    then show ?thesis by blast
  next
    case (Inr b)
    with Cons.prems obtain bs' where tl: \<open>writerows rs = (bs', Some e)\<close> and bs: \<open>bs = b @ bs'\<close>
      by (auto split: prod.splits)
    from Cons.IH [OF tl] obtain written row rest bss where
      \<open>rs = written @ row # rest\<close>
      \<open>list_all2 (\<lambda>row bytes. utf8_encode (csv_row row) = Inr bytes) written bss\<close>
      \<open>bs' = concat bss\<close> \<open>utf8_encode (csv_row row) = Inl e\<close>
      by blast
    with Inr bs have \<open>r # rs = (r # written) @ row # rest
      \<and> list_all2 (\<lambda>row bytes. utf8_encode (csv_row row) = Inr bytes) (r # written) (b # bss)
      \<and> bs = concat (b # bss) \<and> utf8_encode (csv_row row) = Inl e\<close>
      by simp
    then show ?thesis by blast
  qed
qed

lemma files_write_opened:
  \<open>files (snd (write_opened self data old st)) =
     (files st)(csv_file self := Regular (old @ fst (writerows data)))\<close>
  by (simp add: write_opened_def append_bytes_def split: prod.splits option.splits)

lemma files_write_to_csv:
  \<open>files (snd (write_to_csv self data st)) =
     (if files st (csv_file self) = Denied then files st
      else (files st)(csv_file self :=
              Regular (content (files st (csv_file self)) @ fst (writerows data))))\<close>
  by (simp add: write_to_csv_def Let_def open_append_def files_write_opened
      split: fentry.splits)

text \<open>
  C9. \<open>write_to_csv\<close> only appends. When the path can be opened and every row can be
  encoded, the file afterwards holds what it held before (nothing, if it was missing: the
  file is created) followed by the rows of the batch, one after the other in the order of
  the batch, each as its CSV line in UTF-8; no other path changes. And whatever happens,
  a file that existed keeps its content as a prefix of what it holds afterwards.
\<close>

theorem write_to_csv_appends:
  \<open>(files st (csv_file self) \<noteq> Denied \<longrightarrow>
      list_all2 (\<lambda>row bytes. utf8_encode (csv_row row) = Inr bytes) data bs \<longrightarrow>
      files (snd (write_to_csv self data st)) =
        (files st)(csv_file self := Regular (content (files st (csv_file self)) @ concat bs)))
   \<and> (files st path = Regular old \<longrightarrow>
        (\<exists>new. files (snd (write_to_csv self data st)) path = Regular (old @ new)))\<close>
  by (auto simp: files_write_to_csv writerows_encoded)

theorem write_to_csv_appends_witness:
  \<open>list_all2 (\<lambda>row bytes. utf8_encode (csv_row row) = Inr bytes)
     [[[65], [8364], [49, 44, 50]], [[66], [], [34]]]
     [[65, 44, 226, 130, 172, 44, 34, 49, 44, 50, 34, 13, 10],
      [66, 44, 44, 34, 34, 34, 34, 13, 10]]
   \<and> files (snd (write_to_csv daraz [[[65], [8364], [49, 44, 50]], [[66], [], [34]]]
         ((fresh True shop)\<lparr>files := (\<lambda>p. Missing)(csv_file daraz := Regular [120, 13, 10])\<rparr>)))
       (csv_file daraz) =
     Regular [120, 13, 10,
              65, 44, 226, 130, 172, 44, 34, 49, 44, 50, 34, 13, 10,
              66, 44, 44, 34, 34, 34, 34, 13, 10]
   \<and> files (snd (write_to_csv daraz [[[65], [8364], [49, 44, 50]], [[66], [], [34]]]
         (fresh True shop))) (csv_file daraz) =
     Regular [65, 44, 226, 130, 172, 44, 34, 49, 44, 50, 34, 13, 10,
              66, 44, 44, 34, 34, 34, 34, 13, 10]\<close>
proof -
  let ?data = \<open>[[[65], [8364], [49, 44, 50]], [[66], [], [34]]]\<close>
  let ?bs = \<open>[[65, 44, 226, 130, 172, 44, 34, 49, 44, 50, 34, 13, 10],
      [66, 44, 44, 34, 34, 34, 34, 13, 10]]\<close>
  let ?st = \<open>(fresh True shop)\<lparr>files := (\<lambda>p. Missing)(csv_file daraz := Regular [120, 13, 10])\<rparr>\<close>
  have enc: \<open>list_all2 (\<lambda>row bytes. utf8_encode (csv_row row) = Inr bytes) ?data ?bs\<close>
    by (simp add: csv_row_def csv_field_def utf8_char_def)
  have there: \<open>files ?st (csv_file daraz) \<noteq> Denied\<close>
    and absent: \<open>files (fresh True shop) (csv_file daraz) \<noteq> Denied\<close>
    by (simp_all add: fresh_def)
  from write_to_csv_appends [of ?st daraz ?data ?bs] there enc
  have \<open>files (snd (write_to_csv daraz ?data ?st)) (csv_file daraz) =
      Regular ([120, 13, 10] @ concat ?bs)\<close>
    by simp
  moreover
  from write_to_csv_appends [of \<open>fresh True shop\<close> daraz ?data ?bs] absent enc
  have \<open>files (snd (write_to_csv daraz ?data (fresh True shop))) (csv_file daraz) =
      Regular (content (files (fresh True shop) (csv_file daraz)) @ concat ?bs)\<close>
    by simp
  then have \<open>files (snd (write_to_csv daraz ?data (fresh True shop))) (csv_file daraz) =
      Regular (concat ?bs)\<close>
    by (simp add: fresh_def)
  ultimately show ?thesis
    using enc by simp
qed

section \<open>A write that fails\<close>

lemma world_write_to_csv [simp]: \<open>world (snd (write_to_csv self data st)) = world st\<close>
  and calls_write_to_csv [simp]:
    \<open>calls (snd (write_to_csv self data st)) = calls st @ [EvOpenAppend (csv_file self)]\<close>
  by (simp_all add: write_to_csv_def write_opened_def open_append_def append_bytes_def Let_def
      split: prod.splits option.splits fentry.splits)

lemma calls_scrape_containers [simp]:
  \<open>calls (snd (scrape_containers eng cs pd st)) = calls st\<close>
  by (induction cs arbitrary: pd st) (simp_all split: sum.splits)

lemma view_scrape_handler [simp]:
  \<open>world (snd (scrape_handler e st)) = world st\<close>
  \<open>calls (snd (scrape_handler e st)) = calls st\<close>
  by (simp_all add: scrape_handler_def)

lemma view_quit_driver:
  assumes \<open>world st = world st'\<close> \<open>calls st = calls st'\<close>
  shows \<open>world (snd (quit_driver eng st)) = world (snd (quit_driver eng st'))
    \<and> calls (snd (quit_driver eng st)) = calls (snd (quit_driver eng st'))\<close>
  using assms by (simp add: quit_driver_def split: prod.splits option.splits)

lemma view_start_driver:
  assumes \<open>world st = world st'\<close> \<open>calls st = calls st'\<close>
  shows \<open>world (snd (start_driver self eng st)) = world (snd (start_driver self eng st'))
    \<and> calls (snd (start_driver self eng st)) = calls (snd (start_driver self eng st'))\<close>
  using assms
  by (simp add: start_driver_def quit_driver_def Let_def split: prod.splits option.splits)

lemma view_scrape_products:
  assumes \<open>world st = world st'\<close> \<open>calls st = calls st'\<close>
  shows \<open>world (snd (scrape_products self eng st)) = world (snd (scrape_products self eng st'))
    \<and> calls (snd (scrape_products self eng st)) = calls (snd (scrape_products self eng st'))\<close>
proof (cases \<open>wait_presence eng (world st') 10 (xvalue PRODUCT_CONTAINER)\<close>)
  case (Pair r w)
  show ?thesis
  proof (cases r)
    case (Inl e)
    with Pair assms show ?thesis
      by (simp add: scrape_products_def)
  next
    case (Inr cs)
    let ?s = \<open>logger INFO (FoundProducts (length cs))
                (called (EvWaitPresence 10 (xvalue PRODUCT_CONTAINER)) w st)\<close>
    let ?s' = \<open>logger INFO (FoundProducts (length cs))
                (called (EvWaitPresence 10 (xvalue PRODUCT_CONTAINER)) w st')\<close>
    have same: \<open>fst (scrape_containers eng cs [] ?s) = fst (scrape_containers eng cs [] ?s')\<close>
      by (rule scrape_containers_world) simp
    obtain x t where l: \<open>scrape_containers eng cs [] ?s = (x, t)\<close>
      by (cases \<open>scrape_containers eng cs [] ?s\<close>)
    obtain x' t' where r: \<open>scrape_containers eng cs [] ?s' = (x', t')\<close>
      by (cases \<open>scrape_containers eng cs [] ?s'\<close>)
    from l r same have x: \<open>x' = x\<close>
      by simp
    from l have t: \<open>world t = w\<close>
      \<open>calls t = calls st @ [EvWaitPresence 10 (xvalue PRODUCT_CONTAINER)]\<close>
      using world_scrape_containers [of eng cs \<open>[]\<close> ?s]
        calls_scrape_containers [of eng cs \<open>[]\<close> ?s]
      by simp_all
    from r have t': \<open>world t' = w\<close>
      \<open>calls t' = calls st' @ [EvWaitPresence 10 (xvalue PRODUCT_CONTAINER)]\<close>
      using world_scrape_containers [of eng cs \<open>[]\<close> ?s']
        calls_scrape_containers [of eng cs \<open>[]\<close> ?s']
      by simp_all
    show ?thesis
    proof (cases x)
      case (Inl e)
      with Pair Inr assms l r x t t' show ?thesis
        by (simp add: scrape_products_def)
    next
      case batch: (Inr pd)
      obtain y u where w: \<open>write_to_csv self pd t = (y, u)\<close>
        by (cases \<open>write_to_csv self pd t\<close>)
      obtain y' u' where w': \<open>write_to_csv self pd t' = (y', u')\<close>
        by (cases \<open>write_to_csv self pd t'\<close>)
      from w world_write_to_csv [of self pd t] calls_write_to_csv [of self pd t]
      have u: \<open>world u = world t\<close> \<open>calls u = calls t @ [EvOpenAppend (csv_file self)]\<close>
        by simp_all
      from w' world_write_to_csv [of self pd t'] calls_write_to_csv [of self pd t']
      have u': \<open>world u' = world t'\<close> \<open>calls u' = calls t' @ [EvOpenAppend (csv_file self)]\<close>
        by simp_all
      from Pair Inr assms l r x batch w w' t t' u u' show ?thesis
        by (simp add: scrape_products_def split: sum.splits)
    qed
  qed
qed

lemma view_go_to_next_page:
  assumes \<open>world st = world st'\<close> \<open>calls st = calls st'\<close>
  shows \<open>world (snd (go_to_next_page eng st)) = world (snd (go_to_next_page eng st'))
    \<and> calls (snd (go_to_next_page eng st)) = calls (snd (go_to_next_page eng st'))\<close>
  using assms
  by (simp add: go_to_next_page_def next_handler_def
      split: prod.splits option.splits sum.splits)

lemma snd_page_body:
  \<open>snd (page_body self eng pages page st) =
     (if int page < pages - 1
      then snd (go_to_next_page eng
             (snd (scrape_products self eng (logger INFO (ScrapingPage (int page + 1) pages) st))))
      else snd (scrape_products self eng (logger INFO (ScrapingPage (int page + 1) pages) st)))\<close>
  by (simp add: page_body_def split: prod.splits sum.splits)

lemma view_page_body:
  assumes \<open>world st = world st'\<close> \<open>calls st = calls st'\<close>
  shows \<open>world (snd (page_body self eng pages page st)) =
           world (snd (page_body self eng pages page st'))
    \<and> calls (snd (page_body self eng pages page st)) =
        calls (snd (page_body self eng pages page st'))\<close>
proof -
  let ?s = \<open>logger INFO (ScrapingPage (int page + 1) pages) st\<close>
  let ?s' = \<open>logger INFO (ScrapingPage (int page + 1) pages) st'\<close>
  from assms have \<open>world ?s = world ?s'\<close> \<open>calls ?s = calls ?s'\<close>
    by simp_all
  then have sp: \<open>world (snd (scrape_products self eng ?s)) = world (snd (scrape_products self eng ?s'))
    \<and> calls (snd (scrape_products self eng ?s)) = calls (snd (scrape_products self eng ?s'))\<close>
    by (rule view_scrape_products)
  then have \<open>world (snd (go_to_next_page eng (snd (scrape_products self eng ?s)))) =
      world (snd (go_to_next_page eng (snd (scrape_products self eng ?s'))))
    \<and> calls (snd (go_to_next_page eng (snd (scrape_products self eng ?s)))) =
      calls (snd (go_to_next_page eng (snd (scrape_products self eng ?s'))))\<close>
    by (intro view_go_to_next_page) simp_all
  with sp show ?thesis
    by (simp add: snd_page_body)
qed

lemma view_page_loop:
  assumes \<open>world st = world st'\<close> \<open>calls st = calls st'\<close>
  shows \<open>world (page_loop self eng pages idxs st) = world (page_loop self eng pages idxs st')
    \<and> calls (page_loop self eng pages idxs st) = calls (page_loop self eng pages idxs st')\<close>
  using assms
proof (induction idxs arbitrary: st st')
  case Nil
  then show ?case by simp
next
  case (Cons page rest)
  from view_page_body [OF Cons.prems, of self eng pages page]
  have \<open>world (snd (page_body self eng pages page st)) =
           world (snd (page_body self eng pages page st'))\<close>
    and \<open>calls (snd (page_body self eng pages page st)) =
        calls (snd (page_body self eng pages page st'))\<close>
    by simp_all
  then show ?case
    unfolding page_loop_Cons by (rule Cons.IH)
qed

lemma snd_scrape_all_pages:
  \<open>snd (scrape_all_pages self eng pages st) =
     snd (quit_driver eng (page_loop self eng pages [0..<nat pages]
            (snd (start_driver self eng st))))\<close>
  by (simp add: scrape_all_pages_def split: prod.splits sum.splits)

lemma view_scrape_all_pages:
  assumes \<open>world st = world st'\<close> \<open>calls st = calls st'\<close>
  shows \<open>world (snd (scrape_all_pages self eng pages st)) =
           world (snd (scrape_all_pages self eng pages st'))
    \<and> calls (snd (scrape_all_pages self eng pages st)) =
        calls (snd (scrape_all_pages self eng pages st'))\<close>
proof -
  from view_start_driver [OF assms, of self eng]
  have \<open>world (snd (start_driver self eng st)) = world (snd (start_driver self eng st'))\<close>
    and \<open>calls (snd (start_driver self eng st)) = calls (snd (start_driver self eng st'))\<close>
    by simp_all
  then have \<open>world (page_loop self eng pages [0..<nat pages] (snd (start_driver self eng st))) =
      world (page_loop self eng pages [0..<nat pages] (snd (start_driver self eng st')))
    \<and> calls (page_loop self eng pages [0..<nat pages] (snd (start_driver self eng st))) =
      calls (page_loop self eng pages [0..<nat pages] (snd (start_driver self eng st')))\<close>
    by (rule view_page_loop)
  then show ?thesis
    unfolding snd_scrape_all_pages by (intro view_quit_driver) simp_all
qed




section \<open>How often the session is closed\<close>

lemma quits_quit_driver:
  \<open>count_list (calls (snd (quit_driver eng st))) EvQuit = Suc (count_list (calls st) EvQuit)\<close>
  by (simp add: quit_driver_def split: prod.splits option.splits)

lemma quits_start_driver:
  \<open>count_list (calls (snd (start_driver self eng st))) EvQuit =
     (case fst (drv_get eng (world st) (url self)) of
        None \<Rightarrow> count_list (calls st) EvQuit
      | Some e \<Rightarrow> Suc (count_list (calls st) EvQuit))\<close>
  by (simp add: start_driver_def quit_driver_def Let_def split: prod.splits option.splits)

lemma quits_scrape_products:
  \<open>count_list (calls (snd (scrape_products self eng st))) EvQuit = count_list (calls st) EvQuit\<close>
  by (auto simp: scrape_products_def split: prod.splits sum.splits dest!: snd_eqD)

lemma quits_go_to_next_page:
  \<open>count_list (calls (snd (go_to_next_page eng st))) EvQuit = count_list (calls st) EvQuit\<close>
  by (auto simp: go_to_next_page_def next_handler_def
      split: prod.splits sum.splits option.splits)

lemma quits_page_body:
  \<open>count_list (calls (snd (page_body self eng pages page st))) EvQuit =
     count_list (calls st) EvQuit\<close>
  by (simp add: snd_page_body quits_scrape_products quits_go_to_next_page)

lemma quits_page_loop:
  \<open>count_list (calls (page_loop self eng pages idxs st)) EvQuit = count_list (calls st) EvQuit\<close>
proof (induction idxs arbitrary: st)
  case Nil
  show ?case by simp
next
  case (Cons page rest)
  show ?case
    unfolding page_loop_Cons by (simp add: Cons.IH quits_page_body)
qed

text \<open>
  On every engine: a run whose \<open>driver.get\<close> succeeds quits the driver once, at its end;
  a run whose \<open>driver.get\<close> raises quits it twice.
\<close>

lemma quits_scrape_all_pages:
  \<open>count_list (calls (snd (scrape_all_pages self eng pages st))) EvQuit =
     (case fst (drv_get eng (world st) (url self)) of
        None \<Rightarrow> count_list (calls st) EvQuit + 1
      | Some e \<Rightarrow> count_list (calls st) EvQuit + 2)\<close>
  by (simp add: snd_scrape_all_pages quits_quit_driver quits_page_loop quits_start_driver
      split: option.splits)

end
